theory Spec2Isabelle
  imports Main "HOL-Library.Multiset"
begin

section \<open>The meetup announcer of surreycodecamp-hubot\<close>

text \<open>
  The repository holds the announcer twice: the commented script with the promise-based
  fetch and the \<^verbatim>\<open>show upcoming meetups\<close> command (called the commented script
  below), and \<^verbatim>\<open>scripts/meetup.js\<close>, which has the timer only. Both are embedded.
  A definition keeps the name of the function it embeds; the functions of
  \<^verbatim>\<open>scripts/meetup.js\<close> carry the suffix \<open>_scripts\<close>.

  What the script receives from outside is an argument of the model: the outcome of the
  HTTP request, the reply of the store to SET and GET, the sort of the JavaScript engine
  (\<^verbatim>\<open>Array.prototype.sort\<close>), the UTC offset of America/Vancouver that moment-timezone
  looks up, \<^verbatim>\<open>parseInt\<close>, and the engine's comparison of a number with a string.
\<close>

subsection \<open>Events and chat messages\<close>

text \<open>
  An event as the script reads it from the parsed API response: \<^verbatim>\<open>ev.name\<close>,
  \<^verbatim>\<open>ev.time\<close> (epoch milliseconds), \<^verbatim>\<open>ev.venue.name\<close>, \<^verbatim>\<open>ev.venue.address_1\<close>,
  \<^verbatim>\<open>ev.venue.city\<close>, \<^verbatim>\<open>ev.link\<close>, \<^verbatim>\<open>ev.status\<close>. Every event has its venue, as in
  the data model of the specification; an event without one, at which the script throws
  a TypeError when it builds the message, is not among the events of the model.
\<close>

record venue_info =
  vname :: string
  address_1 :: string
  city :: string

record event =
  name :: string
  time :: int
  venue :: venue_info
  link :: string
  status :: string

text \<open>
  The message object literal of the script. \<open>short\<close> is \<open>None\<close> where the literal has no
  such key (the When field of \<^verbatim>\<open>scripts/meetup.js\<close>).
\<close>

record msg_field =
  title :: string
  fvalue :: string
  short :: "bool option"

record attachment =
  att_fields :: "msg_field list"
  thumb_url :: string
  footer :: string

record message =
  msg_text :: string
  attachments :: "attachment list"

subsection \<open>Numbers as text\<close>

text \<open>
  The decimal digits of a number, as a template string and \<^verbatim>\<open>String(n)\<close> print an
  integer below \<open>10^21\<close>. (From \<open>10^21\<close> on the engine prints a number with an exponent.
  No valid Date time value is that large, so every time the commented script saves is
  below; \<^verbatim>\<open>scripts/meetup.js\<close> can save a time it has not formatted, and the model prints
  what the engine does only for a time below \<open>10^21\<close>.)
\<close>

definition digit :: "nat \<Rightarrow> char" where
  "digit n = ''0123456789'' ! n"

fun show_nat :: "nat \<Rightarrow> string" where
  "show_nat n = (if n < 10 then [digit n] else show_nat (n div 10) @ [digit (n mod 10)])"

declare show_nat.simps [simp del]

definition show_int :: "int \<Rightarrow> string" where
  "show_int i = (if i < 0 then CHR ''-'' # show_nat (nat (- i)) else show_nat (nat i))"

subsection \<open>Formatting an event\<close>

text \<open>
  \<^verbatim>\<open>moment(new Date(ev.time).toISOString()).tz('America/Vancouver').format('h:ma')\<close>.
  \<^verbatim>\<open>toISOString\<close> throws a RangeError when the time is no valid Date time value
  (beyond 8.64e15 milliseconds either side of the epoch). \<open>tz t\<close> is the offset from UTC,
  in milliseconds, that moment-timezone applies for America/Vancouver at the instant \<open>t\<close>
  (eight hours back in winter, seven in summer, and the local mean time of the city before
  1884). moment keeps the wall-clock time as a Date of its own, the instant shifted by the
  offset; when the shift leaves the range of Date, the moment is invalid and \<^verbatim>\<open>format\<close>
  returns \<^verbatim>\<open>Invalid date\<close>. The format string has the tokens \<^verbatim>\<open>h\<close> (hour of the
  twelve-hour clock, not padded), \<^verbatim>\<open>:\<close>, \<^verbatim>\<open>m\<close> (minute, not padded) and \<^verbatim>\<open>a\<close>
  (am or pm).
\<close>

datatype error = RequestError | SyntaxError | TypeError | RangeError | RedisError

definition format_h_m_a :: "int \<Rightarrow> string" where
  "format_h_m_a local_ms =
     (let hours = nat ((local_ms div 3600000) mod 24);
          minutes = nat ((local_ms div 60000) mod 60)
      in show_nat (if hours mod 12 = 0 then 12 else hours mod 12) @ '':'' @ show_nat minutes
         @ (if hours > 11 then ''pm'' else ''am''))"

definition valid_date :: "int \<Rightarrow> bool" where
  "valid_date t = (\<bar>t\<bar> \<le> 8640000000000000)"

definition when_value :: "(int \<Rightarrow> int) \<Rightarrow> int \<Rightarrow> error + string" where
  "when_value tz t =
     (if valid_date t
      then (if valid_date (t + tz t) then Inr (format_h_m_a (t + tz t))
            else Inr ''Invalid date'')
      else Inl RangeError)"

definition where_value :: "event \<Rightarrow> string" where
  "where_value ev =
     vname (venue ev) @ [CHR 0x0A] @ address_1 (venue ev) @ '', '' @ city (venue ev)"

definition thumb :: string where
  "thumb = ''https://secure.meetupstatic.com/s/img/422066906568/logo/swarm/m_swarm_128x128.png''"

text \<open>
  The message built for one event. \<open>when_short\<close> is the \<open>short\<close> key of the When field:
  \<open>Some True\<close> in the commented script, absent in \<^verbatim>\<open>scripts/meetup.js\<close>.
\<close>

definition format_event :: "(int \<Rightarrow> int) \<Rightarrow> bool option \<Rightarrow> event \<Rightarrow> error + message" where
  "format_event tz when_short ev =
     (case when_value tz (time ev) of
        Inl e \<Rightarrow> Inl e
      | Inr w \<Rightarrow>
          Inr \<lparr>msg_text = name ev,
               attachments =
                 [\<lparr>att_fields =
                     [\<lparr>title = ''Where'', fvalue = where_value ev, short = Some True\<rparr>,
                      \<lparr>title = ''When'', fvalue = w, short = when_short\<rparr>],
                   thumb_url = thumb,
                   footer = link ev\<rparr>]\<rparr>)"

subsection \<open>The sort of the JavaScript engine\<close>

text \<open>
  Both files sort with the comparator \<^verbatim>\<open>(a, b) => { return a.time > b.time }\<close>. It
  returns a boolean, which \<^verbatim>\<open>Array.prototype.sort\<close> reads as the number 1 or 0: never a
  negative number.
\<close>

definition by_time :: "event \<Rightarrow> event \<Rightarrow> int" where
  "by_time a b = (if time a > time b then 1 else 0)"

type_synonym 'a sorter = "('a \<Rightarrow> 'a \<Rightarrow> int) \<Rightarrow> 'a list \<Rightarrow> 'a list"

text \<open>
  ECMAScript leaves the order open when the comparator is not consistent (one that says
  \<open>a > b\<close> must say \<open>b < a\<close>, with a negative number), so the engine's sort is an argument
  \<open>srt\<close> of the model. \<open>v8_sort\<close> is the sort of V8 since version 7.0 (Node.js 11 and
  later), as it runs on an array shorter than 64 elements: \<open>CountAndMakeRun\<close> finds the
  run the array starts with (and reverses it when it is strictly descending), then
  \<open>BinaryInsertionSort\<close> inserts each later element into the sorted part in front of it.
  (From 64 elements on V8 cuts the array into several runs and merges them; that is not
  modelled.)
\<close>

fun asc_run :: "('a \<Rightarrow> 'a \<Rightarrow> int) \<Rightarrow> 'a \<Rightarrow> 'a list \<Rightarrow> nat" where
  "asc_run cmp p [] = 0"
| "asc_run cmp p (x # xs) = (if cmp x p < 0 then 0 else Suc (asc_run cmp x xs))"

fun desc_run :: "('a \<Rightarrow> 'a \<Rightarrow> int) \<Rightarrow> 'a \<Rightarrow> 'a list \<Rightarrow> nat" where
  "desc_run cmp p [] = 0"
| "desc_run cmp p (x # xs) = (if cmp x p \<ge> 0 then 0 else Suc (desc_run cmp x xs))"

definition CountAndMakeRun :: "('a \<Rightarrow> 'a \<Rightarrow> int) \<Rightarrow> 'a list \<Rightarrow> 'a list \<times> 'a list" where
  "CountAndMakeRun cmp xs =
     (case xs of
        [] \<Rightarrow> ([], [])
      | [x] \<Rightarrow> ([x], [])
      | x0 # x1 # rest \<Rightarrow>
          if cmp x1 x0 < 0
          then (let n = 2 + desc_run cmp x1 rest in (rev (take n xs), drop n xs))
          else (let n = 2 + asc_run cmp x1 rest in (take n xs, drop n xs)))"

function binary_search :: "('a \<Rightarrow> 'a \<Rightarrow> int) \<Rightarrow> 'a \<Rightarrow> 'a list \<Rightarrow> nat \<Rightarrow> nat \<Rightarrow> nat" where
  "binary_search cmp pivot arr left right =
     (if left < right
      then (let mid = left + (right - left) div 2 in
            if cmp pivot (arr ! mid) < 0
            then binary_search cmp pivot arr left mid
            else binary_search cmp pivot arr (mid + 1) right)
      else left)"
  by pat_completeness auto
termination
  by (relation "measure (\<lambda>(cmp, pivot, arr, left, right). right - left)") auto

declare binary_search.simps [simp del]

fun BinaryInsertionSort :: "('a \<Rightarrow> 'a \<Rightarrow> int) \<Rightarrow> 'a list \<Rightarrow> 'a list \<Rightarrow> 'a list" where
  "BinaryInsertionSort cmp low [] = low"
| "BinaryInsertionSort cmp low (pivot # pending) =
     (let k = binary_search cmp pivot low 0 (length low)
      in BinaryInsertionSort cmp (take k low @ pivot # drop k low) pending)"

definition v8_sort :: "'a sorter" where
  "v8_sort cmp xs =
     (if length xs < 2 then xs
      else (case CountAndMakeRun cmp xs of
              (run, pending) \<Rightarrow> BinaryInsertionSort cmp run pending))"

text \<open>
  What every engine's sort does, consistent comparator or not: the array afterwards holds
  the elements it held before, rearranged.
\<close>

definition rearranges :: "'a sorter \<Rightarrow> bool" where
  "rearranges srt = (\<forall>cmp xs. mset (srt cmp xs) = mset xs)"

subsection \<open>The Meetup object and what it touches\<close>

text \<open>
  \<open>lastAnnounced\<close> in the commented script is \<^verbatim>\<open>undefined\<close> until a callback assigns
  it, then a number: the result of \<^verbatim>\<open>parseInt\<close> (which may be NaN) or an event's time.
  In \<^verbatim>\<open>scripts/meetup.js\<close> it is \<^verbatim>\<open>undefined\<close>, the number 0, the string the store
  replied, or an event object.
\<close>

datatype jsnum = Undefined | NaN | Num int

datatype jsval = Prim jsnum | Str string | Obj event

datatype client = Client

datatype dest = Reply | Room string

datatype log_entry = Info string | Error error


text \<open>
  The state: the fields of the Meetup object (\<open>redis\<close>, \<open>lastAnnounced\<close>), the module
  constant \<open>NOTIFICATION_CHANNEL\<close> (\<open>channel\<close>), whether \<^verbatim>\<open>setInterval\<close> was called
  (\<open>timer\<close>), the value under the key \<^verbatim>\<open>events:last-announced\<close> in the store (\<open>store\<close>),
  the messages sent so far, the lines written to \<^verbatim>\<open>hubot.logger\<close>, the arguments
  handed to \<^verbatim>\<open>hubot.error\<close> (which registers its argument as an error handler and
  logs nothing), and the exceptions and promise rejections that no code of the script
  handles.
\<close>

record 'w meetup =
  redis :: "client option"
  lastAnnounced :: 'w
  channel :: "string option"
  timer :: bool
  store :: "string option"
  outbox :: "(dest \<times> message) list"
  logged :: "log_entry list"
  errorHandlers :: "error list"
  uncaught :: "error list"

text \<open>
  A body that is JSON but no array (the error object of the API, say). No such value has a
  \<^verbatim>\<open>filter\<close> method. What \<^verbatim>\<open>scripts/meetup.js\<close> does with it before it calls
  \<^verbatim>\<open>filter\<close> depends on \<^verbatim>\<open>events.length\<close>: \<open>NoLength\<close> is \<^verbatim>\<open>null\<close>, whose length
  cannot be read (or a value whose length has no string form); \<open>LengthZero\<close> is a value
  whose length is the number 0 (the empty string, an object with that entry);
  \<open>LengthShown txt\<close> is any other value, \<open>txt\<close> being what the template string prints for
  its length (\<^verbatim>\<open>undefined\<close> for an object without a length, a number or a boolean).
\<close>

datatype other_json = NoLength | LengthZero | LengthShown string

text \<open>
  What the \<^verbatim>\<open>request\<close> callback receives: an error and no body, a body that is no JSON,
  a body that is JSON but no array, or a body that parses to an array of events. Then the
  store's answer to a command.
\<close>

datatype response = RequestFailed | BadBody | NotArray other_json | EventsBody "event list"

datatype reply = Ok | Err

subsection \<open>Start-up\<close>

record env =
  REDIS_URL :: "string option"
  HUBOT_MEETUP_NOTIFICATION_CHANNEL :: "string option"
  createClient_throws :: bool

text \<open>\<^verbatim>\<open>process.env.X || null\<close>: an unset or empty variable is \<^verbatim>\<open>null\<close>.\<close>

definition or_null :: "string option \<Rightarrow> string option" where
  "or_null v = (case v of None \<Rightarrow> None | Some s \<Rightarrow> if s = [] then None else Some s)"

text \<open>The template string \<^verbatim>\<open>${NOTIFICATION_CHANNEL}\<close>.\<close>

definition chan_str :: "string option \<Rightarrow> string" where
  "chan_str c = (case c of None \<Rightarrow> ''null'' | Some s \<Rightarrow> s)"

text \<open>
  The object right after \<^verbatim>\<open>new Meetup(robot)\<close>; \<open>db\<close> is what the store holds under
  the key when the process starts.
\<close>

definition constructor :: "env \<Rightarrow> string option \<Rightarrow> 'w \<Rightarrow> 'w meetup" where
  "constructor e db undef =
     \<lparr>redis = None, lastAnnounced = undef,
      channel = or_null (HUBOT_MEETUP_NOTIFICATION_CHANNEL e), timer = False, store = db,
      outbox = [], logged = [], errorHandlers = [], uncaught = []\<rparr>"

text \<open>
  \<^verbatim>\<open>initialize()\<close>, the same in both files up to the GET callback: the client is created
  when \<^verbatim>\<open>REDIS_URL\<close> is set (an exception of \<^verbatim>\<open>createClient\<close> is logged and leaves
  \<open>redis\<close> null), the GET is issued when there is a client, and the timer is started when
  a channel is configured, whatever \<open>redis\<close> is.
\<close>

definition initialize :: "env \<Rightarrow> 'w meetup \<Rightarrow> 'w meetup" where
  "initialize e st =
     (let st1 = (if or_null (REDIS_URL e) \<noteq> None
                 then (if createClient_throws e
                       then st\<lparr>logged := logged st @ [Error RedisError]\<rparr>
                       else st\<lparr>redis := Some Client\<rparr>)
                 else st)
      in if channel st1 \<noteq> None then st1\<lparr>timer := True\<rparr> else st1)"

text \<open>
  The GET callback of the commented script:
  \<^verbatim>\<open>if (err) this.hubot.logger.error(err); this.lastAnnounced = parseInt(lastAnnounced || '0')\<close>.
  It runs only when \<open>initialize\<close> found a client.
\<close>

definition on_get_reply :: "(string \<Rightarrow> jsnum) \<Rightarrow> reply \<Rightarrow> jsnum meetup \<Rightarrow> jsnum meetup" where
  "on_get_reply parseInt r st =
     (case r of
        Err \<Rightarrow> st\<lparr>logged := logged st @ [Error RedisError], lastAnnounced := parseInt ''0''\<rparr>
      | Ok \<Rightarrow> st\<lparr>lastAnnounced := parseInt (case or_null (store st) of None \<Rightarrow> ''0'' | Some s \<Rightarrow> s)\<rparr>)"

text \<open>
  The GET callback of \<^verbatim>\<open>scripts/meetup.js\<close>:
  \<^verbatim>\<open>if (err) this.hubot.logger.error(err); this.lastAnnounced = lastAnnounced || 0\<close>.
\<close>

definition on_get_reply_scripts :: "reply \<Rightarrow> jsval meetup \<Rightarrow> jsval meetup" where
  "on_get_reply_scripts r st =
     (case r of
        Err \<Rightarrow> st\<lparr>logged := logged st @ [Error RedisError], lastAnnounced := Prim (Num 0)\<rparr>
      | Ok \<Rightarrow> st\<lparr>lastAnnounced := (case or_null (store st) of None \<Rightarrow> Prim (Num 0) | Some s \<Rightarrow> Str s)\<rparr>)"

subsection \<open>The commented script\<close>

text \<open>
  \<^verbatim>\<open>getUpcomingMeetups()\<close>. On a transport error the promise is rejected and
  \<^verbatim>\<open>JSON.parse(undefined)\<close> then throws in the request callback; on a body that is no
  JSON the parse throws, on one that is no array the call of \<^verbatim>\<open>filter\<close> throws a
  TypeError, and the promise is never settled. In each case the \<^verbatim>\<open>then\<close> callback of the
  caller never runs, and nothing catches the error.
\<close>

definition getUpcomingMeetups :: "event sorter \<Rightarrow> response \<Rightarrow> error list + event list" where
  "getUpcomingMeetups srt r =
     (case r of
        RequestFailed \<Rightarrow> Inl [RequestError, SyntaxError]
      | BadBody \<Rightarrow> Inl [SyntaxError]
      | NotArray j \<Rightarrow> Inl [TypeError]
      | EventsBody evs \<Rightarrow> Inr (srt by_time (filter (\<lambda>ev. status ev = ''upcoming'') evs)))"

text \<open>
  The \<^verbatim>\<open>map\<close> callback of \<open>announceEvents\<close>: each event in turn is formatted and handed
  to the sender. An exception of the formatting ends the loop; what was sent stays sent.
\<close>

fun send_each :: "(int \<Rightarrow> int) \<Rightarrow> bool option \<Rightarrow> dest \<Rightarrow> event list \<Rightarrow> 'w meetup
    \<Rightarrow> 'w meetup \<times> error option" where
  "send_each tz ws d [] st = (st, None)"
| "send_each tz ws d (ev # evs) st =
     (case format_event tz ws ev of
        Inl e \<Rightarrow> (st, Some e)
      | Inr m \<Rightarrow> send_each tz ws d evs (st\<lparr>outbox := outbox st @ [(d, m)]\<rparr>))"

text \<open>
  \<^verbatim>\<open>announceEvents(events, sender)\<close>. After the messages, when there is a client and an
  event, SET is issued with the time of the last event; its callback hands an error to
  \<^verbatim>\<open>hubot.error\<close> and assigns \<open>lastAnnounced\<close> either way. \<open>set_reply\<close> is the answer of
  the store.
\<close>

definition announceEvents :: "(int \<Rightarrow> int) \<Rightarrow> event list \<Rightarrow> dest \<Rightarrow> reply \<Rightarrow> jsnum meetup
    \<Rightarrow> jsnum meetup" where
  "announceEvents tz events d set_reply st =
     (case send_each tz (Some True) d events st of
        (st1, Some e) \<Rightarrow> st1\<lparr>uncaught := uncaught st1 @ [e]\<rparr>
      | (st1, None) \<Rightarrow>
          if redis st1 \<noteq> None \<and> length events > 0
          then (case set_reply of
                  Ok \<Rightarrow> st1\<lparr>store := Some (show_int (time (last events))),
                             lastAnnounced := Num (time (last events))\<rparr>
                | Err \<Rightarrow> st1\<lparr>errorHandlers := errorHandlers st1 @ [RedisError],
                              lastAnnounced := Num (time (last events))\<rparr>)
          else st1)"

text \<open>\<^verbatim>\<open>ev.time > this.lastAnnounced\<close>: false against \<^verbatim>\<open>undefined\<close> and NaN.\<close>

fun gt_num :: "int \<Rightarrow> jsnum \<Rightarrow> bool" where
  "gt_num t (Num n) = (t > n)"
| "gt_num t Undefined = False"
| "gt_num t NaN = False"

text \<open>\<^verbatim>\<open>checkForAndAnnounceNewMeetups()\<close>, the body of one timer tick.\<close>

definition checkForAndAnnounceNewMeetups :: "event sorter \<Rightarrow> (int \<Rightarrow> int) \<Rightarrow> response \<Rightarrow> reply
    \<Rightarrow> jsnum meetup \<Rightarrow> jsnum meetup" where
  "checkForAndAnnounceNewMeetups srt tz r set_reply st =
     (case getUpcomingMeetups srt r of
        Inl es \<Rightarrow> st\<lparr>uncaught := uncaught st @ es\<rparr>
      | Inr events \<Rightarrow>
          (let unannouncedEvents = filter (\<lambda>ev. gt_num (time ev) (lastAnnounced st)) events;
               st1 = st\<lparr>logged := logged st @
                        [Info (show_nat (length unannouncedEvents) @ '' unannounced meetups found'')]\<rparr>
           in if length unannouncedEvents = 0 then st1
              else announceEvents tz unannouncedEvents
                     (Room (''#'' @ chan_str (channel st))) set_reply
                     (st1\<lparr>logged := logged st1 @
                        [Info (''Notifying #'' @ chan_str (channel st) @ '' of ''
                               @ show_nat (length unannouncedEvents) @ '' unannounced events'')]\<rparr>)))"

text \<open>\<^verbatim>\<open>cmdShowUpcoming(resp)\<close>, the handler of the command.\<close>

definition cmdShowUpcoming :: "event sorter \<Rightarrow> (int \<Rightarrow> int) \<Rightarrow> response \<Rightarrow> reply
    \<Rightarrow> jsnum meetup \<Rightarrow> jsnum meetup" where
  "cmdShowUpcoming srt tz r set_reply st =
     (case getUpcomingMeetups srt r of
        Inl es \<Rightarrow> st\<lparr>uncaught := uncaught st @ es\<rparr>
      | Inr events \<Rightarrow> announceEvents tz events Reply set_reply st)"

text \<open>
  What happens to the object after start-up: a tick of the timer (only when
  \<^verbatim>\<open>setInterval\<close> was called) or a message that matches the command.
\<close>

datatype input = Tick response reply | Command response reply

fun step :: "event sorter \<Rightarrow> (int \<Rightarrow> int) \<Rightarrow> jsnum meetup \<Rightarrow> input \<Rightarrow> jsnum meetup" where
  "step srt tz st (Tick r s) =
     (if timer st then checkForAndAnnounceNewMeetups srt tz r s st else st)"
| "step srt tz st (Command r s) = cmdShowUpcoming srt tz r s st"

definition run :: "event sorter \<Rightarrow> (int \<Rightarrow> int) \<Rightarrow> jsnum meetup \<Rightarrow> input list \<Rightarrow> jsnum meetup" where
  "run srt tz st ins = foldl (step srt tz) st ins"

subsection \<open>The command's pattern\<close>

text \<open>
  The constructor registers the command with
  \<^verbatim>\<open>this.hubot.respond(/show upcoming meetups/i, ...)\<close>. From the pattern hubot builds
  the expression it tests a message with, the bot's name first and the pattern after it;
  that construction is hubot's. \<open>command_fires\<close> is the test of the script's own pattern
  on a text. Strings are lists of bytes. \<open>canonicalize\<close> is the case folding of a
  regular expression with the flag \<^verbatim>\<open>i\<close>: a letter a to z becomes its capital, and no
  other byte changes (a character outside ASCII is never folded onto an ASCII letter). The
  pattern has no metacharacter and no anchor: it matches a text that holds the phrase at
  some position.
\<close>

definition canonicalize :: "char \<Rightarrow> char" where
  "canonicalize c =
     (let n = (of_char c :: nat) in if 97 \<le> n \<and> n \<le> 122 then char_of (n - 32) else c)"

fun matches_here :: "string \<Rightarrow> string \<Rightarrow> bool" where
  "matches_here [] s = True"
| "matches_here (p # ps) [] = False"
| "matches_here (p # ps) (c # cs) = (canonicalize p = canonicalize c \<and> matches_here ps cs)"

fun regex_test :: "string \<Rightarrow> string \<Rightarrow> bool" where
  "regex_test p [] = matches_here p []"
| "regex_test p (c # cs) = (matches_here p (c # cs) \<or> regex_test p cs)"

definition command_fires :: "string \<Rightarrow> bool" where
  "command_fires txt = regex_test ''show upcoming meetups'' txt"

subsection \<open>The timer of scripts/meetup.js\<close>

text \<open>
  \<^verbatim>\<open>ev.time > this.lastAnnounced\<close> in \<^verbatim>\<open>scripts/meetup.js\<close>. Against a string the
  engine compares with the number the string converts to; that comparison is the
  argument \<open>gt_str\<close>. An event object converts to NaN, so the comparison with it is false.
\<close>

fun gt_val :: "(int \<Rightarrow> string \<Rightarrow> bool) \<Rightarrow> int \<Rightarrow> jsval \<Rightarrow> bool" where
  "gt_val gt_str t (Prim w) = gt_num t w"
| "gt_val gt_str t (Str s) = gt_str t s"
| "gt_val gt_str t (Obj ev) = False"

text \<open>
  \<^verbatim>\<open>_checkForAndAnnounceNewMeetups()\<close>. The request error is ignored and
  \<^verbatim>\<open>JSON.parse\<close> throws on a missing or malformed body. A body that is JSON but no array
  goes through the test of its length: \<^verbatim>\<open>null\<close> throws there, a length of 0 ends the
  cycle as an empty fetch does, and any other value gets the line of the log before the
  call of \<^verbatim>\<open>filter\<close> throws. After the messages, SET is
  issued with the time of the last element of the array as fetched (\<^verbatim>\<open>filter\<close> returns
  a new array, so neither it nor the sort touches \<open>events\<close>), whether or not anything was
  announced; without a client that call throws a TypeError. The SET callback assigns the
  last event itself to \<open>lastAnnounced\<close>; on an error it throws a TypeError first
  (\<^verbatim>\<open>this.hubor\<close> is undefined).
\<close>

definition checkForAndAnnounceNewMeetups_scripts :: "event sorter \<Rightarrow> (int \<Rightarrow> string \<Rightarrow> bool)
    \<Rightarrow> (int \<Rightarrow> int) \<Rightarrow> response \<Rightarrow> reply \<Rightarrow> jsval meetup \<Rightarrow> jsval meetup" where
  "checkForAndAnnounceNewMeetups_scripts srt gt_str tz r set_reply st =
     (case r of
        RequestFailed \<Rightarrow> st\<lparr>uncaught := uncaught st @ [SyntaxError]\<rparr>
      | BadBody \<Rightarrow> st\<lparr>uncaught := uncaught st @ [SyntaxError]\<rparr>
      | NotArray NoLength \<Rightarrow> st\<lparr>uncaught := uncaught st @ [TypeError]\<rparr>
      | NotArray LengthZero \<Rightarrow> st
      | NotArray (LengthShown txt) \<Rightarrow>
          st\<lparr>logged := logged st @
                [Info (''Notifying #'' @ chan_str (channel st) @ '' of '' @ txt @ '' new events'')],
             uncaught := uncaught st @ [TypeError]\<rparr>
      | EventsBody events \<Rightarrow>
          if length events = 0 then st
          else
            (case send_each tz None (Room (chan_str (channel st)))
                    (srt by_time (filter (\<lambda>ev. gt_val gt_str (time ev) (lastAnnounced st)) events))
                    (st\<lparr>logged := logged st @
                        [Info (''Notifying #'' @ chan_str (channel st) @ '' of ''
                               @ show_nat (length events) @ '' new events'')]\<rparr>) of
               (st2, Some e) \<Rightarrow> st2\<lparr>uncaught := uncaught st2 @ [e]\<rparr>
             | (st2, None) \<Rightarrow>
                 if redis st2 = None then st2\<lparr>uncaught := uncaught st2 @ [TypeError]\<rparr>
                 else (case set_reply of
                         Ok \<Rightarrow> st2\<lparr>store := Some (show_int (time (last events))),
                                    lastAnnounced := Obj (last events)\<rparr>
                       | Err \<Rightarrow> st2\<lparr>uncaught := uncaught st2 @ [TypeError]\<rparr>)))"

text \<open>One tick of the timer, and a sequence of ticks.\<close>

definition tick_scripts :: "event sorter \<Rightarrow> (int \<Rightarrow> string \<Rightarrow> bool) \<Rightarrow> (int \<Rightarrow> int)
    \<Rightarrow> jsval meetup \<Rightarrow> response \<times> reply \<Rightarrow> jsval meetup" where
  "tick_scripts srt gt_str tz st i =
     (if timer st then checkForAndAnnounceNewMeetups_scripts srt gt_str tz (fst i) (snd i) st
      else st)"

definition run_scripts :: "event sorter \<Rightarrow> (int \<Rightarrow> string \<Rightarrow> bool) \<Rightarrow> (int \<Rightarrow> int)
    \<Rightarrow> jsval meetup \<Rightarrow> (response \<times> reply) list \<Rightarrow> jsval meetup" where
  "run_scripts srt gt_str tz st ins = foldl (tick_scripts srt gt_str tz) st ins"


subsection \<open>Sample inputs\<close>

text \<open>
  The inputs at which the theorems below are evaluated. \<open>pst\<close> is Pacific Standard Time,
  eight hours behind UTC, the offset of America/Vancouver at every instant used here. \<open>ev_old\<close>, \<open>ev_a\<close> and
  \<open>ev_b\<close> are the events of the scenario in the specification (times 500, 1500 and 2000),
  \<open>ev_c\<close> is a later one (time 3000); \<open>ev_evening\<close> starts at
  2024-01-01T19:00:00-08:00.
\<close>

definition pst :: "int \<Rightarrow> int" where
  "pst t = - 28800000"

definition library :: venue_info where
  "library = \<lparr>vname = ''City Centre Library'', address_1 = ''10350 University Dr'',
              city = ''Surrey''\<rparr>"

definition ev_old :: event where
  "ev_old = \<lparr>name = ''Z'', time = 500, venue = library,
             link = ''https://www.meetup.com/Surrey-Code-Camp/events/0/'', status = ''upcoming''\<rparr>"

definition ev_a :: event where
  "ev_a = \<lparr>name = ''A'', time = 1500, venue = library,
           link = ''https://www.meetup.com/Surrey-Code-Camp/events/1/'', status = ''upcoming''\<rparr>"

definition ev_b :: event where
  "ev_b = \<lparr>name = ''B'', time = 2000, venue = library,
           link = ''https://www.meetup.com/Surrey-Code-Camp/events/2/'', status = ''upcoming''\<rparr>"

definition ev_c :: event where
  "ev_c = \<lparr>name = ''C'', time = 3000, venue = library,
           link = ''https://www.meetup.com/Surrey-Code-Camp/events/4/'', status = ''upcoming''\<rparr>"

definition ev_evening :: event where
  "ev_evening = \<lparr>name = ''Code night'', time = 1704164400000, venue = library,
                 link = ''https://www.meetup.com/Surrey-Code-Camp/events/3/'',
                 status = ''upcoming''\<rparr>"

definition env_store :: env where
  "env_store = \<lparr>REDIS_URL = Some ''redis://localhost:6379'',
                HUBOT_MEETUP_NOTIFICATION_CHANNEL = Some ''general'',
                createClient_throws = False\<rparr>"

definition env_no_store :: env where
  "env_no_store = \<lparr>REDIS_URL = None, HUBOT_MEETUP_NOTIFICATION_CHANNEL = Some ''general'',
                   createClient_throws = False\<rparr>"

text \<open>
  The commented script after start-up with a store that holds the watermark \<open>T\<close>, once
  the GET callback has assigned it.
\<close>

definition loaded :: "int \<Rightarrow> jsnum meetup" where
  "loaded T = (initialize env_store (constructor env_store (Some (show_int T)) Undefined))
                \<lparr>lastAnnounced := Num T\<rparr>"

text \<open>
  \<^verbatim>\<open>scripts/meetup.js\<close> after start-up with a store that has no watermark yet, once the
  GET callback has run (\<open>lastAnnounced\<close> is the number 0). No string is compared in the
  samples, so the comparison with a string is one that is never consulted.
\<close>

definition started_scripts :: "jsval meetup" where
  "started_scripts =
     on_get_reply_scripts Ok (initialize env_store (constructor env_store None (Prim Undefined)))"

definition no_str :: "int \<Rightarrow> string \<Rightarrow> bool" where
  "no_str t s = False"

section \<open>Properties\<close>

subsection \<open>Evaluation and the engine's sort\<close>

lemma show_nat_small: "n < 10 \<Longrightarrow> show_nat n = [digit n]"
  by (subst show_nat.simps) simp

lemma show_nat_large: "\<not> n < 10 \<Longrightarrow> show_nat n = show_nat (n div 10) @ [digit (n mod 10)]"
  by (subst show_nat.simps) simp

lemmas show_eval = show_nat_small show_nat_large digit_def show_int_def

text \<open>
  A comparator that never returns a negative number makes V8 take the whole array for one
  ascending run: the sort changes nothing. That is the case of the script's comparator.
\<close>

lemma asc_run_nonneg:
  assumes "\<And>a b. \<not> cmp a b < (0::int)"
  shows "asc_run cmp p xs = length xs"
  by (induction xs arbitrary: p) (simp_all add: assms)

lemma v8_sort_nonneg:
  assumes "\<And>a b. \<not> cmp a b < (0::int)"
  shows "v8_sort cmp xs = xs"
proof (cases xs)
  case Nil
  then show ?thesis by (simp add: v8_sort_def)
next
  case (Cons x0 ys)
  show ?thesis
  proof (cases ys)
    case Nil
    with Cons show ?thesis by (simp add: v8_sort_def)
  next
    case (Cons x1 rest)
    with \<open>xs = x0 # ys\<close> show ?thesis
      by (simp add: v8_sort_def CountAndMakeRun_def asc_run_nonneg assms)
  qed
qed

lemma v8_sort_by_time: "v8_sort by_time xs = xs"
  by (rule v8_sort_nonneg) (simp add: by_time_def)

text \<open>Whatever the comparator, V8's sort returns the elements it was given.\<close>

lemma mset_BinaryInsertionSort:
  "mset (BinaryInsertionSort cmp low pending) = mset low + mset pending"
proof (induction pending arbitrary: low)
  case Nil
  then show ?case by simp
next
  case (Cons p ps)
  have "mset (take k low @ p # drop k low) = mset low + {#p#}" for k
    by (metis append_take_drop_id mset.simps(2) mset_append union_mset_add_mset_right
        add.right_neutral)
  then show ?case by (simp add: Cons.IH Let_def)
qed

lemma mset_CountAndMakeRun:
  "CountAndMakeRun cmp xs = (r, p) \<Longrightarrow> mset r + mset p = mset xs"
  apply (auto simp: CountAndMakeRun_def Let_def split: list.splits if_splits)
   apply (metis append_take_drop_id mset_append)+
  done

lemma mset_v8_sort: "mset (v8_sort cmp xs) = mset xs"
  by (auto simp: v8_sort_def mset_BinaryInsertionSort dest: mset_CountAndMakeRun
      split: prod.splits)

lemma rearranges_Nil: "rearranges srt \<Longrightarrow> srt cmp [] = []"
  by (metis mset_zero_iff rearranges_def)

lemma rearranges_set: "rearranges srt \<Longrightarrow> set (srt cmp xs) = set xs"
  by (metis mset_eq_setD rearranges_def)

lemma rearranges_v8_sort: "rearranges v8_sort"
  by (simp add: rearranges_def mset_v8_sort)

subsection \<open>The message of an event\<close>

lemma format_event_valid:
  "valid_date (time ev) \<Longrightarrow> \<exists>m. format_event tz ws ev = Inr m"
  by (simp add: format_event_def when_value_def)

text \<open>The text of the message is the event's name and the footer is its link.\<close>

lemma format_event_name_link:
  "format_event tz ws ev = Inr m \<Longrightarrow>
     msg_text m = name ev \<and> map footer (attachments m) = [link ev]"
  by (auto simp: format_event_def split: sum.splits)

text \<open>
  C6. Formatting \<open>ev_evening\<close>, whose time is 2024-01-01T19:00:00-08:00, gives the event's
  name as the text and its link as the footer, and the When string \<open>7:0pm\<close>: the token
  \<^verbatim>\<open>m\<close> of the format \<^verbatim>\<open>h:ma\<close> prints the minute without padding, so the string is not
  \<open>7:00pm\<close>.
\<close>

theorem format_event_when_unpadded:
  "format_event pst (Some True) ev_evening =
     Inr \<lparr>msg_text = ''Code night'',
          attachments =
            [\<lparr>att_fields =
                [\<lparr>title = ''Where'',
                  fvalue = ''City Centre Library'' @ [CHR 0x0A] @ ''10350 University Dr, Surrey'',
                  short = Some True\<rparr>,
                 \<lparr>title = ''When'', fvalue = ''7:0pm'', short = Some True\<rparr>],
              thumb_url = thumb,
              footer = ''https://www.meetup.com/Surrey-Code-Camp/events/3/''\<rparr>]\<rparr>"
  by (simp add: format_event_def when_value_def valid_date_def format_h_m_a_def pst_def
      ev_evening_def library_def where_value_def show_eval)

subsection \<open>The command's pattern\<close>

lemma matches_here_iff:
  "matches_here p s \<longleftrightarrow> (\<exists>m post. s = m @ post \<and> map canonicalize m = map canonicalize p)"
proof (induction p s rule: matches_here.induct)
  case (1 s)
  then show ?case by simp
next
  case (2 p ps)
  then show ?case by auto
next
  case (3 p ps c cs)
  show ?case
  proof
    assume "matches_here (p # ps) (c # cs)"
    then obtain m post where "cs = m @ post" "map canonicalize m = map canonicalize ps"
      and "canonicalize p = canonicalize c"
      using 3 by auto
    then have "c # cs = (c # m) @ post \<and> map canonicalize (c # m) = map canonicalize (p # ps)"
      by simp
    then show "\<exists>m post. c # cs = m @ post \<and> map canonicalize m = map canonicalize (p # ps)"
      by blast
  next
    assume "\<exists>m post. c # cs = m @ post \<and> map canonicalize m = map canonicalize (p # ps)"
    then obtain m post where m: "c # cs = m @ post" "map canonicalize m = map canonicalize (p # ps)"
      by blast
    then obtain m' where "m = c # m'" by (cases m) auto
    with m 3 show "matches_here (p # ps) (c # cs)" by auto
  qed
qed

lemma regex_test_iff:
  "regex_test p s \<longleftrightarrow> (\<exists>pre rest. s = pre @ rest \<and> matches_here p rest)"
proof (induction s)
  case Nil
  then show ?case by simp
next
  case (Cons c cs)
  note IH = Cons.IH
  show ?case
  proof
    assume "regex_test p (c # cs)"
    then consider "matches_here p (c # cs)" | "regex_test p cs" by auto
    then show "\<exists>pre rest. c # cs = pre @ rest \<and> matches_here p rest"
    proof cases
      case 1
      then have "c # cs = [] @ (c # cs) \<and> matches_here p (c # cs)" by simp
      then show ?thesis by blast
    next
      case 2
      then obtain pre rest where "cs = pre @ rest" "matches_here p rest" using IH by blast
      then have "c # cs = (c # pre) @ rest \<and> matches_here p rest" by simp
      then show ?thesis by blast
    qed
  next
    assume "\<exists>pre rest. c # cs = pre @ rest \<and> matches_here p rest"
    then obtain pre rest where pr: "c # cs = pre @ rest" "matches_here p rest" by blast
    show "regex_test p (c # cs)"
    proof (cases pre)
      case Nil
      with pr have "matches_here p (c # cs)" by simp
      then show ?thesis by simp
    next
      case (Cons a pre')
      with pr have "cs = pre' @ rest" by simp
      with pr IH have "regex_test p cs" by blast
      then show ?thesis by simp
    qed
  qed
qed

text \<open>
  C7, as the code has it. The pattern of the command matches a text exactly when the text
  holds, at some position and in any mix of capitals and small letters, the phrase
  \<open>show upcoming meetups\<close>; the pattern asks nothing of what follows the phrase.
\<close>

theorem command_pattern:
  "command_fires txt \<longleftrightarrow>
     (\<exists>pre m post. txt = pre @ m @ post
        \<and> map canonicalize m = map canonicalize ''show upcoming meetups'')"
  unfolding command_fires_def regex_test_iff matches_here_iff by blast

text \<open>
  C7, as stated, fails: the phrase \<open>show upcoming events\<close> does not fire the command, and a
  text that goes on after the phrase \<open>show upcoming meetups\<close> does.
\<close>

theorem command_pattern_counterexample:
  "\<not> command_fires ''show upcoming events''
   \<and> command_fires ''SHOW Upcoming MEETUPS of next month, thank you''"
  by code_simp

subsection \<open>Sending and saving\<close>

lemma send_each_shape:
  "\<exists>ms. fst (send_each tz ws d evs st) = st\<lparr>outbox := outbox st @ map (Pair d) ms\<rparr>"
proof (induction evs arbitrary: st)
  case Nil
  have "st = st\<lparr>outbox := outbox st @ map (Pair d) []\<rparr>" by simp
  then show ?case by (metis send_each.simps(1) fst_conv)
next
  case (Cons ev evs)
  show ?case
  proof (cases "format_event tz ws ev")
    case (Inl e)
    have "st = st\<lparr>outbox := outbox st @ map (Pair d) []\<rparr>" by simp
    with Inl show ?thesis by (metis send_each.simps(2) sum.simps(5) fst_conv)
  next
    case (Inr m)
    from Cons[of "st\<lparr>outbox := outbox st @ [(d, m)]\<rparr>"] obtain ms where
      "fst (send_each tz ws d evs (st\<lparr>outbox := outbox st @ [(d, m)]\<rparr>))
        = st\<lparr>outbox := outbox st @ map (Pair d) (m # ms)\<rparr>"
      by auto
    with Inr show ?thesis by (simp del: map_append list.map) blast
  qed
qed

lemma send_each_all:
  "list_all (\<lambda>ev. valid_date (time ev)) evs \<Longrightarrow>
   send_each tz ws d evs st =
     (st\<lparr>outbox := outbox st @ map (\<lambda>ev. (d, projr (format_event tz ws ev))) evs\<rparr>, None)"
proof (induction evs arbitrary: st)
  case Nil
  then show ?case by simp
next
  case (Cons ev evs)
  then obtain m where "format_event tz ws ev = Inr m"
    using format_event_valid by fastforce
  with Cons show ?case by simp
qed

lemma send_each_Nil: "send_each tz ws d [] st = (st, None)"
  by simp

text \<open>The four ways \<open>announceEvents\<close> can end: the formatting threw; no SET was issued;
  the SET was stored; the SET failed.\<close>

lemma announceEvents_cases:
  obtains
    (threw) ms e where "announceEvents tz evs d s st
        = st\<lparr>outbox := outbox st @ map (Pair d) ms, uncaught := uncaught st @ [e]\<rparr>"
  | (skipped) ms where "redis st = None \<or> evs = []"
      "announceEvents tz evs d s st = st\<lparr>outbox := outbox st @ map (Pair d) ms\<rparr>"
  | (saved) ms where "redis st \<noteq> None" "evs \<noteq> []" "s = Ok"
      "announceEvents tz evs d s st
        = st\<lparr>outbox := outbox st @ map (Pair d) ms, store := Some (show_int (time (last evs))),
             lastAnnounced := Num (time (last evs))\<rparr>"
  | (failed) ms where "redis st \<noteq> None" "evs \<noteq> []" "s = Err"
      "announceEvents tz evs d s st
        = st\<lparr>outbox := outbox st @ map (Pair d) ms,
             errorHandlers := errorHandlers st @ [RedisError],
             lastAnnounced := Num (time (last evs))\<rparr>"
proof -
  obtain ms where ms: "fst (send_each tz (Some True) d evs st)
      = st\<lparr>outbox := outbox st @ map (Pair d) ms\<rparr>"
    using send_each_shape by blast
  obtain st1 r where sr: "send_each tz (Some True) d evs st = (st1, r)"
    by (cases "send_each tz (Some True) d evs st")
  with ms have st1: "st1 = st\<lparr>outbox := outbox st @ map (Pair d) ms\<rparr>" by simp
  show thesis
  proof (cases r)
    case (Some e)
    with sr st1 have "announceEvents tz evs d s st
        = st\<lparr>outbox := outbox st @ map (Pair d) ms, uncaught := uncaught st @ [e]\<rparr>"
      by (simp add: announceEvents_def)
    then show thesis by (rule threw)
  next
    case None
    show thesis
    proof (cases "redis st \<noteq> None \<and> evs \<noteq> []")
      case False
      with None sr st1 have "announceEvents tz evs d s st
          = st\<lparr>outbox := outbox st @ map (Pair d) ms\<rparr>"
        by (auto simp: announceEvents_def)
      with False show thesis by (intro skipped) auto
    next
      case True
      show thesis
      proof (cases s)
        case Ok
        with True None sr st1 have "announceEvents tz evs d s st
            = st\<lparr>outbox := outbox st @ map (Pair d) ms,
                 store := Some (show_int (time (last evs))),
                 lastAnnounced := Num (time (last evs))\<rparr>"
          by (auto simp: announceEvents_def)
        with True Ok show thesis by (intro saved) auto
      next
        case Err
        with True None sr st1 have "announceEvents tz evs d s st
            = st\<lparr>outbox := outbox st @ map (Pair d) ms,
                 errorHandlers := errorHandlers st @ [RedisError],
                 lastAnnounced := Num (time (last evs))\<rparr>"
          by (auto simp: announceEvents_def)
        with True Err show thesis by (intro failed) auto
      qed
    qed
  qed
qed


lemmas sample_defs = loaded_def initialize_def constructor_def env_store_def env_no_store_def
  or_null_def chan_str_def ev_a_def ev_b_def ev_c_def ev_old_def library_def pst_def

lemma valid_samples:
  "valid_date (time ev_a)" "valid_date (time ev_b)" "valid_date (time ev_c)"
  "valid_date (time ev_old)"
  by (simp_all add: valid_date_def ev_a_def ev_b_def ev_c_def ev_old_def)

text \<open>
  In the commented script a cycle whose filtered subset is empty sends nothing and leaves
  the persisted watermark and \<open>lastAnnounced\<close> as they were.
\<close>

lemma check_empty_subset:
  assumes "getUpcomingMeetups srt r = Inr events"
    and "filter (\<lambda>ev. gt_num (time ev) (lastAnnounced st)) events = []"
  shows "outbox (checkForAndAnnounceNewMeetups srt tz r s st) = outbox st
       \<and> store (checkForAndAnnounceNewMeetups srt tz r s st) = store st
       \<and> lastAnnounced (checkForAndAnnounceNewMeetups srt tz r s st) = lastAnnounced st"
  using assms by (simp add: checkForAndAnnounceNewMeetups_def)

text \<open>
  In the commented script \<open>lastAnnounced\<close>, once a number, never decreases over timer
  ticks: a cycle assigns it only the time of an event that passed the filter.
\<close>

lemma announceEvents_lastAnnounced:
  "lastAnnounced (announceEvents tz evs d s st) = lastAnnounced st
   \<or> (evs \<noteq> [] \<and> lastAnnounced (announceEvents tz evs d s st) = Num (time (last evs)))"
  by (cases rule: announceEvents_cases[of tz evs d s st]) auto

lemma check_lastAnnounced_mono:
  assumes "lastAnnounced st = Num T"
  shows "\<exists>T'. lastAnnounced (checkForAndAnnounceNewMeetups srt tz r s st) = Num T' \<and> T \<le> T'"
proof (cases "getUpcomingMeetups srt r")
  case (Inl es)
  with assms show ?thesis by (simp add: checkForAndAnnounceNewMeetups_def)
next
  case (Inr events)
  define un where "un = filter (\<lambda>ev. gt_num (time ev) (lastAnnounced st)) events"
  show ?thesis
  proof (cases "un = []")
    case True
    with Inr assms show ?thesis by (simp add: checkForAndAnnounceNewMeetups_def un_def)
  next
    case False
    define st2 where "st2 = st\<lparr>logged := logged st @
        [Info (show_nat (length un) @ '' unannounced meetups found''),
         Info (''Notifying #'' @ chan_str (channel st) @ '' of ''
               @ show_nat (length un) @ '' unannounced events'')]\<rparr>"
    have eq: "checkForAndAnnounceNewMeetups srt tz r s st
        = announceEvents tz un (Room (''#'' @ chan_str (channel st))) s st2"
      using Inr False by (simp add: checkForAndAnnounceNewMeetups_def un_def st2_def Let_def)
    have "last un \<in> set un" using False by simp
    then have "gt_num (time (last un)) (Num T)" using assms by (simp add: un_def)
    then have gt: "T < time (last un)" by simp
    have "lastAnnounced st2 = Num T" using assms by (simp add: st2_def)
    with announceEvents_lastAnnounced[of tz un "Room (''#'' @ chan_str (channel st))" s st2] gt
    show ?thesis unfolding eq by auto
  qed
qed

lemma ticks_lastAnnounced_mono:
  "lastAnnounced st = Num T \<Longrightarrow>
   \<exists>T'. lastAnnounced (run srt tz st (map (\<lambda>(r, s). Tick r s) ins)) = Num T' \<and> T \<le> T'"
proof (induction ins arbitrary: st T)
  case Nil
  then show ?case by (simp add: run_def)
next
  case (Cons i ins)
  obtain r s where i: "i = (r, s)" by (cases i)
  have "\<exists>T1. lastAnnounced (step srt tz st (Tick r s)) = Num T1 \<and> T \<le> T1"
  proof (cases "timer st")
    case True
    with Cons.prems check_lastAnnounced_mono[of st T srt tz r s] show ?thesis by simp
  next
    case False
    with Cons.prems show ?thesis by simp
  qed
  then obtain T1 where
    T1: "lastAnnounced (step srt tz st (Tick r s)) = Num T1" "T \<le> T1" by blast
  from Cons.IH[OF T1(1)] obtain T' where
    "lastAnnounced (run srt tz (step srt tz st (Tick r s)) (map (\<lambda>(r, s). Tick r s) ins)) = Num T'"
    "T1 \<le> T'" by blast
  with T1 i show ?case by (auto simp: run_def)
qed

subsection \<open>The command and the watermark\<close>

lemma getUpcoming_v8: "getUpcomingMeetups v8_sort (EventsBody evs)
    = Inr (filter (\<lambda>ev. status ev = ''upcoming'') evs)"
  by (simp add: getUpcomingMeetups_def v8_sort_by_time)

lemma loaded_simps:
  "redis (loaded T) = Some Client" "lastAnnounced (loaded T) = Num T"
  "store (loaded T) = Some (show_int T)" "outbox (loaded T) = []" "timer (loaded T)"
  "channel (loaded T) = Some ''general''" "logged (loaded T) = []" "uncaught (loaded T) = []"
  by (simp_all add: sample_defs)

text \<open>
  C1, as stated, fails. With a client and the watermark 1000 loaded, the command on a fetch
  of the three events of the scenario writes 2000, the time of the last of them, to the
  store and to \<open>lastAnnounced\<close>.
\<close>

theorem cmdShowUpcoming_writes_watermark:
  "store (loaded 1000) = Some ''1000''
   \<and> store (cmdShowUpcoming v8_sort pst (EventsBody [ev_old, ev_a, ev_b]) Ok (loaded 1000))
       = Some ''2000''
   \<and> lastAnnounced (loaded 1000) = Num 1000
   \<and> lastAnnounced (cmdShowUpcoming v8_sort pst (EventsBody [ev_old, ev_a, ev_b]) Ok (loaded 1000))
       = Num 2000"
  by (simp add: cmdShowUpcoming_def getUpcoming_v8 announceEvents_def send_each_all valid_samples
      loaded_simps show_eval)
     (simp add: ev_old_def ev_a_def ev_b_def show_eval)

text \<open>
  C1, as the code has it. The command leaves the persisted watermark and \<open>lastAnnounced\<close>
  as they were when there is no client, when the fetch fails, or when no upcoming event
  was fetched. With a client and at least one upcoming event, all of them sent, it assigns
  the time of the last event of the list to \<open>lastAnnounced\<close>, and to the persisted
  watermark when the store accepts the SET. The comment above the SET says so: the
  watermark is stored "regardless of whether this announcement was driven by command or
  timer".
\<close>

theorem cmdShowUpcoming_watermark:
  "(redis st = None \<or> isl (getUpcomingMeetups srt r) \<or> getUpcomingMeetups srt r = Inr []
      \<longrightarrow> store (cmdShowUpcoming srt tz r s st) = store st
          \<and> lastAnnounced (cmdShowUpcoming srt tz r s st) = lastAnnounced st)
   \<and> (redis st \<noteq> None \<and> getUpcomingMeetups srt r = Inr events \<and> events \<noteq> []
        \<and> list_all (\<lambda>ev. valid_date (time ev)) events
      \<longrightarrow> lastAnnounced (cmdShowUpcoming srt tz r s st) = Num (time (last events))
          \<and> store (cmdShowUpcoming srt tz r s st)
              = (case s of Ok \<Rightarrow> Some (show_int (time (last events))) | Err \<Rightarrow> store st))"
proof (intro conjI impI)
  assume a: "redis st = None \<or> isl (getUpcomingMeetups srt r) \<or> getUpcomingMeetups srt r = Inr []"
  show "store (cmdShowUpcoming srt tz r s st) = store st"
  proof (cases "getUpcomingMeetups srt r")
    case (Inl es)
    then show ?thesis by (simp add: cmdShowUpcoming_def)
  next
    case (Inr evs)
    with a have "redis st = None \<or> evs = []" by auto
    then show ?thesis
      using Inr by (cases rule: announceEvents_cases[of tz evs Reply s st])
        (auto simp: cmdShowUpcoming_def)
  qed
  show "lastAnnounced (cmdShowUpcoming srt tz r s st) = lastAnnounced st"
  proof (cases "getUpcomingMeetups srt r")
    case (Inl es)
    then show ?thesis by (simp add: cmdShowUpcoming_def)
  next
    case (Inr evs)
    with a have "redis st = None \<or> evs = []" by auto
    then show ?thesis
      using Inr by (cases rule: announceEvents_cases[of tz evs Reply s st])
        (auto simp: cmdShowUpcoming_def)
  qed
next
  assume b: "redis st \<noteq> None \<and> getUpcomingMeetups srt r = Inr events \<and> events \<noteq> []
        \<and> list_all (\<lambda>ev. valid_date (time ev)) events"
  then have eq: "cmdShowUpcoming srt tz r s st = announceEvents tz events Reply s st"
    by (simp add: cmdShowUpcoming_def)
  from b show "lastAnnounced (cmdShowUpcoming srt tz r s st) = Num (time (last events))"
    unfolding eq by (cases s) (auto simp: announceEvents_def send_each_all)
  from b show "store (cmdShowUpcoming srt tz r s st)
              = (case s of Ok \<Rightarrow> Some (show_int (time (last events))) | Err \<Rightarrow> store st)"
    unfolding eq by (cases s) (auto simp: announceEvents_def send_each_all)
qed

text \<open>
  The theorem at two inputs: without a client, where nothing changes, and with a client
  and a failing SET, where \<open>lastAnnounced\<close> becomes 2000 and the store keeps 1000.
\<close>

theorem cmdShowUpcoming_watermark_witness:
  "store (cmdShowUpcoming v8_sort pst (EventsBody [ev_a, ev_b]) Ok
            (initialize env_no_store (constructor env_no_store (Some ''1000'') Undefined)))
     = Some ''1000''
   \<and> lastAnnounced (cmdShowUpcoming v8_sort pst (EventsBody [ev_a, ev_b]) Ok
            (initialize env_no_store (constructor env_no_store (Some ''1000'') Undefined)))
     = Undefined
   \<and> lastAnnounced (cmdShowUpcoming v8_sort pst (EventsBody [ev_a, ev_b]) Err (loaded 1000))
     = Num 2000
   \<and> store (cmdShowUpcoming v8_sort pst (EventsBody [ev_a, ev_b]) Err (loaded 1000))
     = Some ''1000''"
proof -
  let ?st0 = "initialize env_no_store (constructor env_no_store (Some ''1000'') Undefined)"
  have up: "getUpcomingMeetups v8_sort (EventsBody [ev_a, ev_b]) = Inr [ev_a, ev_b]"
    by (simp add: getUpcoming_v8 ev_a_def ev_b_def)
  have r0: "redis ?st0 = None" "store ?st0 = Some ''1000''" "lastAnnounced ?st0 = Undefined"
    by (simp_all add: sample_defs)
  have ok: "list_all (\<lambda>ev. valid_date (time ev)) [ev_a, ev_b]"
    by (simp add: valid_samples)
  have "time (last [ev_a, ev_b]) = 2000" by (simp add: ev_b_def)
  with cmdShowUpcoming_watermark[of ?st0 v8_sort "EventsBody [ev_a, ev_b]" pst Ok "[]"]
    cmdShowUpcoming_watermark[of "loaded 1000" v8_sort "EventsBody [ev_a, ev_b]" pst Err
      "[ev_a, ev_b]"]
    up r0 ok
  show ?thesis by (simp add: loaded_simps show_eval)
qed

subsection \<open>Without a store\<close>

lemma step_no_store:
  assumes "redis st = None" "lastAnnounced st = Undefined"
  shows "redis (step srt tz st i) = None \<and> lastAnnounced (step srt tz st i) = Undefined
       \<and> store (step srt tz st i) = store st
       \<and> filter (\<lambda>(d, m). d \<noteq> Reply) (outbox (step srt tz st i))
           = filter (\<lambda>(d, m). d \<noteq> Reply) (outbox st)"
proof (cases i)
  case (Tick r s)
  show ?thesis
  proof (cases "getUpcomingMeetups srt r")
    case (Inl es)
    with Tick assms show ?thesis by (simp add: checkForAndAnnounceNewMeetups_def)
  next
    case (Inr events)
    with Tick assms show ?thesis by (simp add: checkForAndAnnounceNewMeetups_def)
  qed
next
  case (Command r s)
  show ?thesis
  proof (cases "getUpcomingMeetups srt r")
    case (Inl es)
    with Command assms show ?thesis by (simp add: cmdShowUpcoming_def)
  next
    case (Inr events)
    then have eq: "step srt tz st i = announceEvents tz events Reply s st"
      using Command by (simp add: cmdShowUpcoming_def)
    have "filter (\<lambda>(d, m). d \<noteq> Reply) (map (Pair Reply) ms) = []" for ms :: "message list"
      by (induction ms) auto
    then show ?thesis
      unfolding eq using assms
      by (cases rule: announceEvents_cases[of tz events Reply s st]) auto
  qed
qed

lemma run_no_store:
  assumes "redis st = None" "lastAnnounced st = Undefined"
  shows "redis (run srt tz st ins) = None \<and> lastAnnounced (run srt tz st ins) = Undefined
       \<and> store (run srt tz st ins) = store st
       \<and> filter (\<lambda>(d, m). d \<noteq> Reply) (outbox (run srt tz st ins))
           = filter (\<lambda>(d, m). d \<noteq> Reply) (outbox st)"
  using assms
proof (induction ins arbitrary: st)
  case Nil
  then show ?case by (simp add: run_def)
next
  case (Cons i ins)
  from step_no_store[OF Cons.prems, of srt tz i] Cons.IH[of "step srt tz st i"]
  show ?case by (simp add: run_def)
qed

lemma initialize_no_store:
  assumes "or_null (REDIS_URL e) = None \<or> createClient_throws e"
  shows "redis (initialize e (constructor e db Undefined)) = None"
    "lastAnnounced (initialize e (constructor e db Undefined)) = Undefined"
    "store (initialize e (constructor e db Undefined)) = db"
    "outbox (initialize e (constructor e db Undefined)) = []"
    "timer (initialize e (constructor e db Undefined))
       = (or_null (HUBOT_MEETUP_NOTIFICATION_CHANNEL e) \<noteq> None)"
  using assms by (auto simp: initialize_def constructor_def Let_def)

text \<open>
  C5, as the code has it. Start the commented script with no store: \<^verbatim>\<open>REDIS_URL\<close> is
  unset, or \<^verbatim>\<open>createClient\<close> throws. The timer is started all the same when a channel
  is configured. Then, after any sequence of timer ticks and
  commands, no message has been sent to a room, the store holds what it held, and
  \<open>lastAnnounced\<close> is still undefined (which is why no event passes the filter of a
  cycle). The command still answers with one message for each upcoming event of the
  fetch, in the order the engine's sort leaves them in.
\<close>

theorem no_store_announces_nothing:
  assumes "or_null (REDIS_URL e) = None \<or> createClient_throws e"
  shows "timer (initialize e (constructor e db Undefined))
           = (or_null (HUBOT_MEETUP_NOTIFICATION_CHANNEL e) \<noteq> None)
       \<and> filter (\<lambda>(d, m). d \<noteq> Reply)
           (outbox (run srt tz (initialize e (constructor e db Undefined)) ins)) = []
       \<and> store (run srt tz (initialize e (constructor e db Undefined)) ins) = db
       \<and> lastAnnounced (run srt tz (initialize e (constructor e db Undefined)) ins) = Undefined
       \<and> (list_all (\<lambda>ev. valid_date (time ev))
            (srt by_time (filter (\<lambda>ev. status ev = ''upcoming'') raw))
          \<longrightarrow> outbox (cmdShowUpcoming srt tz (EventsBody raw) s
                  (run srt tz (initialize e (constructor e db Undefined)) ins))
              = outbox (run srt tz (initialize e (constructor e db Undefined)) ins)
                @ map (\<lambda>ev. (Reply, projr (format_event tz (Some True) ev)))
                    (srt by_time (filter (\<lambda>ev. status ev = ''upcoming'') raw)))"
proof -
  let ?st0 = "initialize e (constructor e db Undefined)"
  note inv = run_no_store[of ?st0 srt tz ins, OF initialize_no_store(1,2)[OF assms]]
  have "list_all (\<lambda>ev. valid_date (time ev))
            (srt by_time (filter (\<lambda>ev. status ev = ''upcoming'') raw))
    \<Longrightarrow> outbox (cmdShowUpcoming srt tz (EventsBody raw) s (run srt tz ?st0 ins))
              = outbox (run srt tz ?st0 ins)
                @ map (\<lambda>ev. (Reply, projr (format_event tz (Some True) ev)))
                    (srt by_time (filter (\<lambda>ev. status ev = ''upcoming'') raw))"
    using inv by (simp add: cmdShowUpcoming_def getUpcomingMeetups_def announceEvents_def
        send_each_all)
  with inv initialize_no_store(3,4,5)[OF assms] show ?thesis by simp
qed

text \<open>
  C5, as stated, fails: without a store the timer is still started when a channel is
  configured, and a tick runs the cycle, which fetches and writes its log line.
\<close>

theorem timer_runs_without_store:
  "timer (initialize env_no_store (constructor env_no_store None Undefined))
   \<and> logged (initialize env_no_store (constructor env_no_store None Undefined)) = []
   \<and> logged (step v8_sort pst (initialize env_no_store (constructor env_no_store None Undefined))
        (Tick (EventsBody [ev_a, ev_b]) Ok))
     = [Info ''0 unannounced meetups found'']"
  by (simp add: sample_defs checkForAndAnnounceNewMeetups_def getUpcoming_v8 show_eval)

text \<open>
  The theorem at a start with \<^verbatim>\<open>REDIS_URL\<close> unset: no room message after a tick, a
  command and a tick, and the command's answers for a fetch of two events.
\<close>

theorem no_store_announces_nothing_witness:
  "timer (initialize env_no_store (constructor env_no_store None Undefined))
   \<and> filter (\<lambda>(d, m). d \<noteq> Reply)
      (outbox (run v8_sort pst (initialize env_no_store (constructor env_no_store None Undefined))
         [Tick (EventsBody [ev_a, ev_b]) Ok, Command (EventsBody [ev_a, ev_b]) Ok,
          Tick (EventsBody [ev_a, ev_b]) Ok])) = []
   \<and> map (msg_text \<circ> snd)
       (outbox (cmdShowUpcoming v8_sort pst (EventsBody [ev_b, ev_a]) Ok
          (run v8_sort pst (initialize env_no_store (constructor env_no_store None Undefined)) [])))
     = [''B'', ''A'']"
proof -
  have e: "or_null (REDIS_URL env_no_store) = None \<or> createClient_throws env_no_store"
    by (simp add: env_no_store_def or_null_def)
  have up: "v8_sort by_time (filter (\<lambda>ev. status ev = ''upcoming'') [ev_b, ev_a]) = [ev_b, ev_a]"
    by (simp add: v8_sort_by_time ev_a_def ev_b_def)
  have ok: "list_all (\<lambda>ev. valid_date (time ev)) [ev_b, ev_a]"
    by (simp add: valid_samples)
  have o: "outbox (run v8_sort pst (initialize env_no_store (constructor env_no_store None Undefined)) []) = []"
    by (simp add: run_def sample_defs)
  have n: "msg_text (projr (format_event pst (Some True) ev_b)) = ''B''"
    "msg_text (projr (format_event pst (Some True) ev_a)) = ''A''"
    by (simp_all add: format_event_def when_value_def valid_samples) (simp_all add: ev_a_def ev_b_def)
  from no_store_announces_nothing[OF e, where srt = v8_sort and tz = pst and db = None
      and ins = "[Tick (EventsBody [ev_a, ev_b]) Ok, Command (EventsBody [ev_a, ev_b]) Ok,
        Tick (EventsBody [ev_a, ev_b]) Ok]"]
    no_store_announces_nothing[OF e, where srt = v8_sort and tz = pst and db = None
      and ins = "[]" and raw = "[ev_b, ev_a]" and s = Ok]
  show ?thesis
    by (simp only: up ok o n simp_thms append_Nil list.map comp_apply snd_conv)
       (simp add: env_no_store_def or_null_def)
qed

subsection \<open>What a cycle sends and saves\<close>

lemma started_scripts_simps:
  "redis started_scripts = Some Client" "lastAnnounced started_scripts = Prim (Num 0)"
  "store started_scripts = None" "outbox started_scripts = []" "timer started_scripts"
  "channel started_scripts = Some ''general''" "logged started_scripts = []"
  "uncaught started_scripts = []"
  by (simp_all add: started_scripts_def on_get_reply_scripts_def sample_defs)

lemma format_event_text:
  "valid_date (time ev) \<Longrightarrow> msg_text (projr (format_event tz ws ev)) = name ev"
  by (simp add: format_event_def when_value_def)

lemma names_sent:
  "list_all (\<lambda>ev. valid_date (time ev)) evs \<Longrightarrow>
   map (msg_text \<circ> snd) (map (\<lambda>ev. (d, projr (format_event tz ws ev))) evs) = map name evs"
  by (induction evs) (simp_all add: format_event_text)

text \<open>
  A cycle of the commented script in which some event passes the filter, every such event
  can be formatted and there is a client: what is sent, and what is saved.
\<close>

lemma check_announces:
  assumes "getUpcomingMeetups srt r = Inr events"
    and "un = filter (\<lambda>ev. gt_num (time ev) (lastAnnounced st)) events"
    and "un \<noteq> []" and "list_all (\<lambda>ev. valid_date (time ev)) un" and "redis st \<noteq> None"
  shows "outbox (checkForAndAnnounceNewMeetups srt tz r s st)
          = outbox st @ map (\<lambda>ev. (Room (''#'' @ chan_str (channel st)),
                                    projr (format_event tz (Some True) ev))) un"
    and "lastAnnounced (checkForAndAnnounceNewMeetups srt tz r s st) = Num (time (last un))"
    and "store (checkForAndAnnounceNewMeetups srt tz r s st)
          = (case s of Ok \<Rightarrow> Some (show_int (time (last un))) | Err \<Rightarrow> store st)"
  using assms
  by (cases s; simp add: checkForAndAnnounceNewMeetups_def announceEvents_def send_each_all Let_def)+

text \<open>
  A cycle of \<^verbatim>\<open>scripts/meetup.js\<close> on a fetch that holds an event, with a client and with
  a store that accepts the SET: what is sent, and what is saved.
\<close>

lemma scripts_cycle:
  assumes "events \<noteq> []"
    and "un = srt by_time (filter (\<lambda>ev. gt_val gt_str (time ev) (lastAnnounced st)) events)"
    and "list_all (\<lambda>ev. valid_date (time ev)) un" and "redis st \<noteq> None"
  shows "outbox (checkForAndAnnounceNewMeetups_scripts srt gt_str tz (EventsBody events) Ok st)
          = outbox st @ map (\<lambda>ev. (Room (chan_str (channel st)),
                                    projr (format_event tz None ev))) un"
    and "lastAnnounced (checkForAndAnnounceNewMeetups_scripts srt gt_str tz (EventsBody events) Ok st)
          = Obj (last events)"
    and "store (checkForAndAnnounceNewMeetups_scripts srt gt_str tz (EventsBody events) Ok st)
          = Some (show_int (time (last events)))"
  using assms
  by (auto simp: checkForAndAnnounceNewMeetups_scripts_def send_each_all)

text \<open>
  The events a cycle announces are the fetched ones above the watermark (the upcoming ones,
  in the commented script), whatever order the engine's sort leaves them in.
\<close>

lemma unannounced_set:
  assumes "rearranges srt"
  shows "set (filter (\<lambda>ev. gt_num (time ev) (Num T))
                (srt by_time (filter (\<lambda>ev. status ev = ''upcoming'') raw)))
          = {ev \<in> set raw. status ev = ''upcoming'' \<and> T < time ev}"
  using assms by (auto simp: rearranges_set)

lemma unannounced_set_scripts:
  assumes "rearranges srt"
  shows "set (srt by_time (filter (\<lambda>ev. gt_val gt_str (time ev) (Prim (Num T))) raw))
          = {ev \<in> set raw. T < time ev}"
  using assms by (auto simp: rearranges_set)

text \<open>
  C3. A fetch that lists \<open>ev_b\<close> (time 2000) before \<open>ev_a\<close> (time 1500), on V8: the
  comparator never moves an element, both events are announced in that order, and the
  watermark saved is 1500, the time of the last one sent, while the maximum over the
  announced events is 2000. In \<^verbatim>\<open>scripts/meetup.js\<close> the persisted watermark is the time of
  the last element of the array as fetched, and \<open>lastAnnounced\<close> becomes that event object.
\<close>

theorem watermark_not_the_maximum:
  "store (checkForAndAnnounceNewMeetups v8_sort pst (EventsBody [ev_old, ev_b, ev_a]) Ok
            (loaded 1000)) = Some ''1500''
   \<and> lastAnnounced (checkForAndAnnounceNewMeetups v8_sort pst (EventsBody [ev_old, ev_b, ev_a]) Ok
            (loaded 1000)) = Num 1500
   \<and> store (checkForAndAnnounceNewMeetups_scripts v8_sort no_str pst (EventsBody [ev_b, ev_a]) Ok
            started_scripts) = Some ''1500''
   \<and> lastAnnounced (checkForAndAnnounceNewMeetups_scripts v8_sort no_str pst
            (EventsBody [ev_b, ev_a]) Ok started_scripts) = Obj ev_a
   \<and> Max (time ` {ev_b, ev_a}) = 2000"
proof -
  have up: "getUpcomingMeetups v8_sort (EventsBody [ev_old, ev_b, ev_a]) = Inr [ev_old, ev_b, ev_a]"
    by (simp add: getUpcoming_v8 ev_old_def ev_a_def ev_b_def)
  have un: "[ev_b, ev_a] = filter (\<lambda>ev. gt_num (time ev) (lastAnnounced (loaded 1000)))
      [ev_old, ev_b, ev_a]"
    by (simp add: loaded_simps ev_old_def ev_a_def ev_b_def)
  have ok: "list_all (\<lambda>ev. valid_date (time ev)) [ev_b, ev_a]"
    by (simp add: valid_samples)
  have r: "redis (loaded 1000) \<noteq> None" by (simp add: loaded_simps)
  have ne: "[ev_b, ev_a] \<noteq> []" by simp
  note c = check_announces(2,3)[where srt = v8_sort and r = "EventsBody [ev_old, ev_b, ev_a]"
      and events = "[ev_old, ev_b, ev_a]" and un = "[ev_b, ev_a]" and st = "loaded 1000"
      and tz = pst and s = Ok, OF up un ne ok r]
  have un2: "[ev_b, ev_a] = v8_sort by_time
      (filter (\<lambda>ev. gt_val no_str (time ev) (lastAnnounced started_scripts)) [ev_b, ev_a])"
    by (simp add: v8_sort_by_time started_scripts_simps ev_a_def ev_b_def)
  have r2: "redis started_scripts \<noteq> None" by (simp add: started_scripts_simps)
  note s = scripts_cycle(2,3)[where srt = v8_sort and gt_str = no_str
      and events = "[ev_b, ev_a]" and un = "[ev_b, ev_a]" and st = started_scripts
      and tz = pst, OF ne un2 ok r2]
  have t: "time ev_a = 1500" "time ev_b = 2000" by (simp_all add: ev_a_def ev_b_def)
  have "show_int 1500 = ''1500''" by (simp add: show_eval)
  with c s t show ?thesis by simp
qed

subsection \<open>The event object in lastAnnounced\<close>

lemma scripts_frame:
  "redis (checkForAndAnnounceNewMeetups_scripts srt gt_str tz r s st) = redis st
   \<and> timer (checkForAndAnnounceNewMeetups_scripts srt gt_str tz r s st) = timer st
   \<and> channel (checkForAndAnnounceNewMeetups_scripts srt gt_str tz r s st) = channel st"
proof (cases r)
  case (EventsBody events)
  let ?st1 = "st\<lparr>logged := logged st @
      [Info (''Notifying #'' @ chan_str (channel st) @ '' of ''
             @ show_nat (length events) @ '' new events'')]\<rparr>"
  let ?un = "srt by_time (filter (\<lambda>ev. gt_val gt_str (time ev) (lastAnnounced st)) events)"
  obtain ms where ms: "fst (send_each tz None (Room (chan_str (channel st))) ?un ?st1)
      = ?st1\<lparr>outbox := outbox ?st1 @ map (Pair (Room (chan_str (channel st)))) ms\<rparr>"
    using send_each_shape by blast
  obtain st2 e where sr: "send_each tz None (Room (chan_str (channel st))) ?un ?st1 = (st2, e)"
    by (cases "send_each tz None (Room (chan_str (channel st))) ?un ?st1")
  with ms have "st2 = ?st1\<lparr>outbox := outbox ?st1 @ map (Pair (Room (chan_str (channel st)))) ms\<rparr>"
    by simp
  with sr EventsBody show ?thesis
    by (cases e; cases s) (auto simp: checkForAndAnnounceNewMeetups_scripts_def)
next
  case (NotArray j)
  then show ?thesis by (cases j) (simp_all add: checkForAndAnnounceNewMeetups_scripts_def)
qed (simp_all add: checkForAndAnnounceNewMeetups_scripts_def)

text \<open>
  Once \<open>lastAnnounced\<close> is an event object, a tick of \<^verbatim>\<open>scripts/meetup.js\<close> sends nothing
  and leaves it an event object.
\<close>

lemma scripts_object_tick:
  assumes "rearranges srt" "lastAnnounced st = Obj e"
  shows "outbox (tick_scripts srt gt_str tz st i) = outbox st
       \<and> (\<exists>e'. lastAnnounced (tick_scripts srt gt_str tz st i) = Obj e')"
proof (cases "fst i")
  case RequestFailed
  with assms show ?thesis
    by (simp add: tick_scripts_def checkForAndAnnounceNewMeetups_scripts_def)
next
  case BadBody
  with assms show ?thesis
    by (simp add: tick_scripts_def checkForAndAnnounceNewMeetups_scripts_def)
next
  case (NotArray j)
  with assms show ?thesis
    by (cases j) (simp_all add: tick_scripts_def checkForAndAnnounceNewMeetups_scripts_def)
next
  case (EventsBody events)
  have "filter (\<lambda>ev. gt_val gt_str (time ev) (lastAnnounced st)) events = []"
    using assms by simp
  then have "srt by_time (filter (\<lambda>ev. gt_val gt_str (time ev) (lastAnnounced st)) events) = []"
    using assms rearranges_Nil by metis
  with EventsBody assms show ?thesis
    by (cases "snd i") (auto simp: tick_scripts_def checkForAndAnnounceNewMeetups_scripts_def)
qed

lemma scripts_object_run:
  assumes "rearranges srt" "lastAnnounced st = Obj e"
  shows "outbox (run_scripts srt gt_str tz st ins) = outbox st
       \<and> (\<exists>e'. lastAnnounced (run_scripts srt gt_str tz st ins) = Obj e')"
  using assms(2)
proof (induction ins arbitrary: st e)
  case Nil
  then show ?case by (simp add: run_scripts_def)
next
  case (Cons i ins)
  from scripts_object_tick[OF assms(1) Cons.prems, of gt_str tz i] obtain e1 where
    1: "outbox (tick_scripts srt gt_str tz st i) = outbox st"
       "lastAnnounced (tick_scripts srt gt_str tz st i) = Obj e1" by blast
  from Cons.IH[OF 1(2)] 1(1) show ?case by (simp add: run_scripts_def)
qed

text \<open>
  C10. In \<^verbatim>\<open>scripts/meetup.js\<close>, a cycle on a fetch that holds an event, with a client, a
  store that accepts the SET and events that can all be formatted, leaves the last event
  of the fetch itself in \<open>lastAnnounced\<close>. From then on, after any sequence of timer ticks,
  the test \<^verbatim>\<open>ev.time > this.lastAnnounced\<close> is false for every time and no further message
  has been sent. (The engine's sort is any that returns its input rearranged.)
\<close>

theorem scripts_never_announces_again:
  assumes "rearranges srt" and "redis st \<noteq> None" and "events \<noteq> []"
    and "list_all (\<lambda>ev. valid_date (time ev)) events"
  shows "lastAnnounced (checkForAndAnnounceNewMeetups_scripts srt gt_str tz (EventsBody events) Ok st)
           = Obj (last events)
       \<and> (\<forall>t. \<not> gt_val gt_str t
             (lastAnnounced (run_scripts srt gt_str tz
                (checkForAndAnnounceNewMeetups_scripts srt gt_str tz (EventsBody events) Ok st)
                ins)))
       \<and> outbox (run_scripts srt gt_str tz
             (checkForAndAnnounceNewMeetups_scripts srt gt_str tz (EventsBody events) Ok st) ins)
           = outbox (checkForAndAnnounceNewMeetups_scripts srt gt_str tz (EventsBody events) Ok st)"
proof -
  let ?un = "srt by_time (filter (\<lambda>ev. gt_val gt_str (time ev) (lastAnnounced st)) events)"
  let ?st1 = "checkForAndAnnounceNewMeetups_scripts srt gt_str tz (EventsBody events) Ok st"
  have "set ?un \<subseteq> set events" using assms(1) by (simp add: rearranges_set)
  with assms(4) have ok: "list_all (\<lambda>ev. valid_date (time ev)) ?un"
    by (auto simp: list_all_iff)
  have obj: "lastAnnounced ?st1 = Obj (last events)"
    using scripts_cycle(2)[where srt = srt and gt_str = gt_str and events = events
        and un = ?un and st = st and tz = tz] assms(2,3) ok
    by simp
  from scripts_object_run[OF assms(1) obj, of gt_str tz ins] obtain e' where
    "outbox (run_scripts srt gt_str tz ?st1 ins) = outbox ?st1"
    "lastAnnounced (run_scripts srt gt_str tz ?st1 ins) = Obj e'" by blast
  with obj show ?thesis by simp
qed

text \<open>
  The theorem on V8, from the start of \<^verbatim>\<open>scripts/meetup.js\<close>: the first cycle announces
  \<open>ev_a\<close> and \<open>ev_b\<close> and leaves \<open>ev_b\<close> in \<open>lastAnnounced\<close>; two later fetches list the
  new event \<open>ev_c\<close>, which is never announced.
\<close>

theorem scripts_never_announces_again_witness:
  "lastAnnounced (checkForAndAnnounceNewMeetups_scripts v8_sort no_str pst
      (EventsBody [ev_a, ev_b]) Ok started_scripts) = Obj ev_b
   \<and> \<not> gt_val no_str (time ev_c)
         (lastAnnounced (run_scripts v8_sort no_str pst
            (checkForAndAnnounceNewMeetups_scripts v8_sort no_str pst
               (EventsBody [ev_a, ev_b]) Ok started_scripts)
            [(EventsBody [ev_a, ev_b, ev_c], Ok), (EventsBody [ev_b, ev_c], Ok)]))
   \<and> map (msg_text \<circ> snd)
       (outbox (run_scripts v8_sort no_str pst
          (checkForAndAnnounceNewMeetups_scripts v8_sort no_str pst
             (EventsBody [ev_a, ev_b]) Ok started_scripts)
          [(EventsBody [ev_a, ev_b, ev_c], Ok), (EventsBody [ev_b, ev_c], Ok)]))
     = [''A'', ''B'']"
proof -
  have ok: "list_all (\<lambda>ev. valid_date (time ev)) [ev_a, ev_b]"
    by (simp add: valid_samples)
  have r: "redis started_scripts \<noteq> None" by (simp add: started_scripts_simps)
  have ne: "[ev_a, ev_b] \<noteq> []" by simp
  have un: "[ev_a, ev_b] = v8_sort by_time
      (filter (\<lambda>ev. gt_val no_str (time ev) (lastAnnounced started_scripts)) [ev_a, ev_b])"
    by (simp add: v8_sort_by_time started_scripts_simps ev_a_def ev_b_def)
  have out: "map (msg_text \<circ> snd)
      (outbox (checkForAndAnnounceNewMeetups_scripts v8_sort no_str pst
         (EventsBody [ev_a, ev_b]) Ok started_scripts)) = [''A'', ''B'']"
    using scripts_cycle(1)[where srt = v8_sort and gt_str = no_str and events = "[ev_a, ev_b]"
        and un = "[ev_a, ev_b]" and st = started_scripts and tz = pst, OF ne un ok r]
    by (simp add: started_scripts_simps format_event_text valid_samples)
       (simp add: ev_a_def ev_b_def)
  from scripts_never_announces_again[OF rearranges_v8_sort r ne ok, of no_str pst
      "[(EventsBody [ev_a, ev_b, ev_c], Ok), (EventsBody [ev_b, ev_c], Ok)]"] out
  show ?thesis by simp
qed

subsection \<open>Cycles at sample fetches\<close>

text \<open>
  C2. A fetch that lists \<open>ev_b\<close> (time 2000) before \<open>ev_a\<close> (time 1500), on V8: both files
  publish \<open>ev_b\<close> first. The comparator returns the boolean \<^verbatim>\<open>a.time > b.time\<close>, never a
  negative number, and V8 then leaves every element where it is. (The events announced
  are the fetched ones with a time above the watermark, as claimed; the order is not
  ascending.)
\<close>

theorem announced_out_of_order:
  "map (msg_text \<circ> snd)
     (outbox (checkForAndAnnounceNewMeetups v8_sort pst (EventsBody [ev_old, ev_b, ev_a]) Ok
                (loaded 1000)))
     = [''B'', ''A'']
   \<and> map (msg_text \<circ> snd)
       (outbox (checkForAndAnnounceNewMeetups_scripts v8_sort no_str pst
                  (EventsBody [ev_b, ev_a]) Ok started_scripts))
     = [''B'', ''A'']
   \<and> time ev_b = 2000 \<and> time ev_a = 1500"
proof -
  have up: "getUpcomingMeetups v8_sort (EventsBody [ev_old, ev_b, ev_a]) = Inr [ev_old, ev_b, ev_a]"
    by (simp add: getUpcoming_v8 ev_old_def ev_a_def ev_b_def)
  have un: "[ev_b, ev_a] = filter (\<lambda>ev. gt_num (time ev) (lastAnnounced (loaded 1000)))
      [ev_old, ev_b, ev_a]"
    by (simp add: loaded_simps ev_old_def ev_a_def ev_b_def)
  have ok: "list_all (\<lambda>ev. valid_date (time ev)) [ev_b, ev_a]"
    by (simp add: valid_samples)
  have r: "redis (loaded 1000) \<noteq> None" by (simp add: loaded_simps)
  have ne: "[ev_b, ev_a] \<noteq> []" by simp
  note c = check_announces(1)[where srt = v8_sort and r = "EventsBody [ev_old, ev_b, ev_a]"
      and events = "[ev_old, ev_b, ev_a]" and un = "[ev_b, ev_a]" and st = "loaded 1000"
      and tz = pst and s = Ok, OF up un ne ok r]
  have un2: "[ev_b, ev_a] = v8_sort by_time
      (filter (\<lambda>ev. gt_val no_str (time ev) (lastAnnounced started_scripts)) [ev_b, ev_a])"
    by (simp add: v8_sort_by_time started_scripts_simps ev_a_def ev_b_def)
  have r2: "redis started_scripts \<noteq> None" by (simp add: started_scripts_simps)
  note s = scripts_cycle(1)[where srt = v8_sort and gt_str = no_str
      and events = "[ev_b, ev_a]" and un = "[ev_b, ev_a]" and st = started_scripts
      and tz = pst, OF ne un2 ok r2]
  have n: "name ev_a = ''A''" "name ev_b = ''B''" "time ev_a = 1500" "time ev_b = 2000"
    by (simp_all add: ev_a_def ev_b_def)
  have tx: "msg_text (projr (format_event pst ws ev_a)) = ''A''"
    "msg_text (projr (format_event pst ws ev_b)) = ''B''" for ws
    by (simp_all add: format_event_text valid_samples n(1,2))
  from c s n tx show ?thesis
    by (simp add: loaded_simps started_scripts_simps)
qed

text \<open>
  C4. In \<^verbatim>\<open>scripts/meetup.js\<close> the SET is issued after every cycle whose fetch is not
  empty. After a first cycle that announced \<open>ev_b\<close> (watermark 2000), a cycle on a fetch
  of \<open>ev_a\<close> alone (time 1500) finds no event that passes the filter and sends nothing,
  yet it overwrites the persisted watermark with 1500 and \<open>lastAnnounced\<close> with \<open>ev_a\<close>.
  (The commented script returns before any of that: lemma \<open>check_empty_subset\<close>.)
\<close>

theorem scripts_empty_subset_overwrites:
  "filter (\<lambda>ev. gt_val no_str (time ev)
             (lastAnnounced (run_scripts v8_sort no_str pst started_scripts
                [(EventsBody [ev_b], Ok)]))) [ev_a] = []
   \<and> outbox (run_scripts v8_sort no_str pst started_scripts
        [(EventsBody [ev_b], Ok), (EventsBody [ev_a], Ok)])
     = outbox (run_scripts v8_sort no_str pst started_scripts [(EventsBody [ev_b], Ok)])
   \<and> store (run_scripts v8_sort no_str pst started_scripts [(EventsBody [ev_b], Ok)])
     = Some ''2000''
   \<and> store (run_scripts v8_sort no_str pst started_scripts
        [(EventsBody [ev_b], Ok), (EventsBody [ev_a], Ok)])
     = Some ''1500''
   \<and> lastAnnounced (run_scripts v8_sort no_str pst started_scripts [(EventsBody [ev_b], Ok)])
     = Obj ev_b
   \<and> lastAnnounced (run_scripts v8_sort no_str pst started_scripts
        [(EventsBody [ev_b], Ok), (EventsBody [ev_a], Ok)])
     = Obj ev_a"
proof -
  let ?st1 = "checkForAndAnnounceNewMeetups_scripts v8_sort no_str pst (EventsBody [ev_b]) Ok
      started_scripts"
  let ?st2 = "checkForAndAnnounceNewMeetups_scripts v8_sort no_str pst (EventsBody [ev_a]) Ok ?st1"
  have r1: "run_scripts v8_sort no_str pst started_scripts [(EventsBody [ev_b], Ok)] = ?st1"
    by (simp add: run_scripts_def tick_scripts_def started_scripts_simps)
  have fr: "redis ?st1 \<noteq> None" "timer ?st1"
    using scripts_frame[of v8_sort no_str pst "EventsBody [ev_b]" Ok started_scripts]
    by (simp_all add: started_scripts_simps)
  have r2: "run_scripts v8_sort no_str pst started_scripts
      [(EventsBody [ev_b], Ok), (EventsBody [ev_a], Ok)] = ?st2"
    using fr by (simp add: run_scripts_def tick_scripts_def started_scripts_simps)
  have un1: "[ev_b] = v8_sort by_time
      (filter (\<lambda>ev. gt_val no_str (time ev) (lastAnnounced started_scripts)) [ev_b])"
    by (simp add: v8_sort_by_time started_scripts_simps ev_b_def)
  have s1: "lastAnnounced ?st1 = Obj ev_b" "store ?st1 = Some (show_int (time ev_b))"
    using scripts_cycle(2,3)[where srt = v8_sort and gt_str = no_str and events = "[ev_b]"
        and un = "[ev_b]" and st = started_scripts and tz = pst, OF _ un1]
    by (simp_all add: valid_samples started_scripts_simps)
  have un2: "[] = v8_sort by_time
      (filter (\<lambda>ev. gt_val no_str (time ev) (lastAnnounced ?st1)) [ev_a])"
    by (simp add: v8_sort_by_time s1)
  have s2: "outbox ?st2 = outbox ?st1" "lastAnnounced ?st2 = Obj ev_a"
      "store ?st2 = Some (show_int (time ev_a))"
    using scripts_cycle[where srt = v8_sort and gt_str = no_str and events = "[ev_a]"
        and un = "[]" and st = ?st1 and tz = pst, OF _ un2] fr
    by simp_all
  have "show_int (time ev_b) = ''2000''" "show_int (time ev_a) = ''1500''"
    by (simp_all add: ev_a_def ev_b_def show_eval)
  with s1 s2 show ?thesis unfolding r1 r2 by simp
qed

text \<open>
  C9. In \<^verbatim>\<open>scripts/meetup.js\<close> the persisted watermark can go down over scheduled
  cycles although every fetch is in ascending order of time: 2000 after a fetch of \<open>ev_a\<close>
  and \<open>ev_b\<close>, then 1500 after a fetch of \<open>ev_a\<close> alone. (In the commented script
  \<open>lastAnnounced\<close> never decreases over timer ticks: lemma \<open>ticks_lastAnnounced_mono\<close>.)
\<close>

theorem scripts_watermark_decreases:
  "sorted (map time [ev_a, ev_b]) \<and> sorted (map time [ev_a])
   \<and> store (run_scripts v8_sort no_str pst started_scripts [(EventsBody [ev_a, ev_b], Ok)])
     = Some ''2000''
   \<and> store (run_scripts v8_sort no_str pst started_scripts
        [(EventsBody [ev_a, ev_b], Ok), (EventsBody [ev_a], Ok)])
     = Some ''1500''"
proof -
  let ?st1 = "checkForAndAnnounceNewMeetups_scripts v8_sort no_str pst (EventsBody [ev_a, ev_b]) Ok
      started_scripts"
  let ?st2 = "checkForAndAnnounceNewMeetups_scripts v8_sort no_str pst (EventsBody [ev_a]) Ok ?st1"
  have r1: "run_scripts v8_sort no_str pst started_scripts [(EventsBody [ev_a, ev_b], Ok)] = ?st1"
    by (simp add: run_scripts_def tick_scripts_def started_scripts_simps)
  have fr: "redis ?st1 \<noteq> None" "timer ?st1"
    using scripts_frame[of v8_sort no_str pst "EventsBody [ev_a, ev_b]" Ok started_scripts]
    by (simp_all add: started_scripts_simps)
  have r2: "run_scripts v8_sort no_str pst started_scripts
      [(EventsBody [ev_a, ev_b], Ok), (EventsBody [ev_a], Ok)] = ?st2"
    using fr by (simp add: run_scripts_def tick_scripts_def started_scripts_simps)
  have un1: "[ev_a, ev_b] = v8_sort by_time
      (filter (\<lambda>ev. gt_val no_str (time ev) (lastAnnounced started_scripts)) [ev_a, ev_b])"
    by (simp add: v8_sort_by_time started_scripts_simps ev_a_def ev_b_def)
  have s1: "lastAnnounced ?st1 = Obj ev_b" "store ?st1 = Some (show_int (time ev_b))"
    using scripts_cycle(2,3)[where srt = v8_sort and gt_str = no_str and events = "[ev_a, ev_b]"
        and un = "[ev_a, ev_b]" and st = started_scripts and tz = pst, OF _ un1]
    by (simp_all add: valid_samples started_scripts_simps)
  have un2: "[] = v8_sort by_time
      (filter (\<lambda>ev. gt_val no_str (time ev) (lastAnnounced ?st1)) [ev_a])"
    by (simp add: v8_sort_by_time s1)
  have s2: "store ?st2 = Some (show_int (time ev_a))"
    using scripts_cycle(3)[where srt = v8_sort and gt_str = no_str and events = "[ev_a]"
        and un = "[]" and st = ?st1 and tz = pst, OF _ un2] fr
    by simp_all
  have "show_int (time ev_b) = ''2000''" "show_int (time ev_a) = ''1500''"
    "sorted (map time [ev_a, ev_b])"
    by (simp_all add: ev_a_def ev_b_def show_eval)
  with s1 s2 show ?thesis unfolding r1 r2 by simp
qed

subsection \<open>A failed fetch\<close>













end
